theory Spec2Isabelle
  imports Main "HOL-Library.Multiset"
begin

section \<open>Python strings and exceptions\<close>

text \<open>
  A Python \<open>str\<close> is modelled as a \<open>string\<close>: a list of characters with code
  points below 256.  Every exception class that the crawler can meet is a constructor of
  \<open>exn\<close>; a function that may raise returns \<open>exn + 'a\<close> with \<open>Inl\<close> for the raise.
\<close>

datatype exn = ValueError | NameError | HTTPError | URLError | OtherError

text \<open>\<open>s.startswith(p)\<close>\<close>

fun startswith :: "string \<Rightarrow> string \<Rightarrow> bool" where
  "startswith s [] = True"
| "startswith [] (p # ps) = False"
| "startswith (c # s) (p # ps) = (c = p \<and> startswith s ps)"

text \<open>\<open>sub in s\<close> for strings\<close>

fun str_contains :: "string \<Rightarrow> string \<Rightarrow> bool" where
  "str_contains sub [] = (sub = [])"
| "str_contains sub (c # s) = (startswith (c # s) sub \<or> str_contains sub s)"

text \<open>\<open>s.partition(c)\<close> for a one-character separator: the text before the first
  \<open>c\<close>, whether \<open>c\<close> was found, and the text after it.\<close>

definition before :: "char \<Rightarrow> string \<Rightarrow> string" where
  "before c s = takeWhile (\<lambda>x. x \<noteq> c) s"

definition after :: "char \<Rightarrow> string \<Rightarrow> string" where
  "after c s = tl (dropWhile (\<lambda>x. x \<noteq> c) s)"

text \<open>\<open>s.rpartition(c)[2]\<close>: the text after the last \<open>c\<close>, all of \<open>s\<close> without one.\<close>

definition after_last :: "char \<Rightarrow> string \<Rightarrow> string" where
  "after_last c s = rev (takeWhile (\<lambda>x. x \<noteq> c) (rev s))"

text \<open>\<open>s.split(c)\<close>\<close>

fun split_on :: "char \<Rightarrow> string \<Rightarrow> string list" where
  "split_on c [] = [[]]"
| "split_on c (x # s) =
     (if x = c then [] # split_on c s
      else (case split_on c s of [] \<Rightarrow> [[x]] | w # ws \<Rightarrow> (x # w) # ws))"

text \<open>\<open>sep.join(parts)\<close>\<close>

fun join :: "string \<Rightarrow> string list \<Rightarrow> string" where
  "join sep [] = []"
| "join sep [w] = w"
| "join sep (w # v # ws) = w @ sep @ join sep (v # ws)"

text \<open>\<open>s.replace(c, r)\<close> for a one-character \<open>c\<close>\<close>

definition replace_char :: "char \<Rightarrow> string \<Rightarrow> string \<Rightarrow> string" where
  "replace_char c r s = concat (map (\<lambda>x. if x = c then r else [x]) s)"

text \<open>\<open>c.lower()\<close> on code points below 256: the ASCII capitals and the Latin-1 capitals
  \<open>0xC0..0xDE\<close> without \<open>0xD7\<close> move up by 32.\<close>

definition lower_char :: "char \<Rightarrow> char" where
  "lower_char c =
     (let n = (of_char c :: nat)
      in if (65 \<le> n \<and> n \<le> 90) \<or> (192 \<le> n \<and> n \<le> 222 \<and> n \<noteq> 215)
         then char_of (n + 32) else c)"

definition lower :: "string \<Rightarrow> string" where
  "lower s = map lower_char s"

text \<open>\<open>c.isascii() and c.isalpha()\<close>\<close>

definition ascii_alpha :: "char \<Rightarrow> bool" where
  "ascii_alpha c =
     (let n = (of_char c :: nat) in (65 \<le> n \<and> n \<le> 90) \<or> (97 \<le> n \<and> n \<le> 122))"

section \<open>html.escape\<close>

text \<open>
  \<^verbatim>\<open>
  def escape(s, quote=True):
      s = s.replace("&", "&amp;") # Must be done first!
      s = s.replace("<", "&lt;")
      s = s.replace(">", "&gt;")
      if quote:
          s = s.replace('"', "&quot;")
          s = s.replace('\'', "&#x27;")
      return s
  \<close>
\<close>

definition escape :: "string \<Rightarrow> string" where
  "escape s =
     replace_char (CHR 0x27) ''&#x27;''
       (replace_char (CHR 0x22) ''&quot;''
         (replace_char CHR ''>'' ''&gt;''
           (replace_char CHR ''<'' ''&lt;''
             (replace_char CHR ''&'' ''&amp;'' s))))"

section \<open>urllib.parse\<close>

text \<open>
  The crawler calls \<open>urlparse(..).hostname\<close>, \<open>urldefrag\<close> and \<open>urljoin\<close> of the
  standard library (CPython 3.11, \<open>Lib/urllib/parse.py\<close>); they are transcribed here.
  \<open>_check_bracketed_host\<close> parses IP literals with the \<open>ipaddress\<close> module and is
  taken as a parameter \<open>chk\<close>: \<open>chk h\<close> holds when it accepts the bracketed host
  \<open>h\<close>.  \<open>_checknetloc\<close> only raises for characters whose NFKC form contains one of
  \<open>/?#@:\<close>; no code point below 256 has such a form, so it is the identity here.
\<close>

definition uses_relative :: "string list" where
  "uses_relative = ['''', ''ftp'', ''http'', ''gopher'', ''nntp'', ''imap'',
     ''wais'', ''file'', ''https'', ''shttp'', ''mms'',
     ''prospero'', ''rtsp'', ''rtsps'', ''rtspu'', ''sftp'',
     ''svn'', ''svn+ssh'', ''ws'', ''wss'']"

definition uses_netloc :: "string list" where
  "uses_netloc = ['''', ''ftp'', ''http'', ''gopher'', ''nntp'', ''telnet'',
     ''imap'', ''wais'', ''file'', ''mms'', ''https'', ''shttp'',
     ''snews'', ''prospero'', ''rtsp'', ''rtsps'', ''rtspu'', ''rsync'',
     ''svn'', ''svn+ssh'', ''sftp'', ''nfs'', ''git'', ''git+ssh'',
     ''ws'', ''wss'']"

definition uses_params :: "string list" where
  "uses_params = ['''', ''ftp'', ''hdl'', ''prospero'', ''http'', ''imap'',
     ''https'', ''shttp'', ''rtsp'', ''rtsps'', ''rtspu'', ''sip'',
     ''sips'', ''mms'', ''sftp'', ''tel'']"

definition scheme_char :: "char \<Rightarrow> bool" where
  "scheme_char c =
     (let n = (of_char c :: nat)
      in (97 \<le> n \<and> n \<le> 122) \<or> (65 \<le> n \<and> n \<le> 90) \<or> (48 \<le> n \<and> n \<le> 57)
         \<or> c = CHR ''+'' \<or> c = CHR ''-'' \<or> c = CHR ''.'')"

text \<open>\<open>_WHATWG_C0_CONTROL_OR_SPACE\<close>: the code points 0 to 32.\<close>

definition c0_or_space :: "char \<Rightarrow> bool" where
  "c0_or_space c = ((of_char c :: nat) \<le> 32)"

text \<open>\<open>_UNSAFE_URL_BYTES_TO_REMOVE = ['\t', '\r', '\n']\<close>\<close>

definition unsafe_byte :: "char \<Rightarrow> bool" where
  "unsafe_byte c = (c = CHR 0x09 \<or> c = CHR 0x0D \<or> c = CHR 0x0A)"

definition lstrip_c0 :: "string \<Rightarrow> string" where
  "lstrip_c0 s = dropWhile c0_or_space s"

definition strip_c0 :: "string \<Rightarrow> string" where
  "strip_c0 s = rev (dropWhile c0_or_space (rev (dropWhile c0_or_space s)))"

definition remove_unsafe :: "string \<Rightarrow> string" where
  "remove_unsafe s = filter (\<lambda>c. \<not> unsafe_byte c) s"

text \<open>A \<open>SplitResult\<close> is the 5-tuple (scheme, netloc, path, query, fragment).\<close>

type_synonym split_result = "string \<times> string \<times> string \<times> string \<times> string"

text \<open>
  \<^verbatim>\<open>
  def _splitnetloc(url, start=0):
      delim = len(url)
      for c in '/?#':
          wdelim = url.find(c, start)
          if wdelim >= 0:
              delim = min(delim, wdelim)
      return url[start:delim], url[delim:]
  \<close>
\<close>

definition netloc_delim :: "char \<Rightarrow> bool" where
  "netloc_delim c = (c = CHR ''/'' \<or> c = CHR ''?'' \<or> c = CHR ''#'')"

definition splitnetloc :: "string \<Rightarrow> nat \<Rightarrow> string \<times> string" where
  "splitnetloc url start =
     (takeWhile (\<lambda>c. \<not> netloc_delim c) (drop start url),
      dropWhile (\<lambda>c. \<not> netloc_delim c) (drop start url))"

text \<open>The scheme test of \<open>urlsplit\<close>: \<open>i = url.find(':')\<close>, \<open>i > 0\<close>, the first
  character an ASCII letter and every character of \<open>url[:i]\<close> in \<open>scheme_chars\<close>.\<close>

definition has_scheme :: "string \<Rightarrow> bool" where
  "has_scheme url =
     (CHR '':'' \<in> set url \<and> before CHR '':'' url \<noteq> [] \<and> ascii_alpha (hd url)
      \<and> list_all scheme_char (before CHR '':'' url))"

text \<open>
  \<^verbatim>\<open>
  def urlsplit(url, scheme='', allow_fragments=True):
      url = url.lstrip(_WHATWG_C0_CONTROL_OR_SPACE)
      scheme = scheme.strip(_WHATWG_C0_CONTROL_OR_SPACE)
      for b in _UNSAFE_URL_BYTES_TO_REMOVE:
          url = url.replace(b, "")
          scheme = scheme.replace(b, "")
      netloc = query = fragment = ''
      i = url.find(':')
      if i > 0 and url[0].isascii() and url[0].isalpha():
          for c in url[:i]:
              if c not in scheme_chars:
                  break
          else:
              scheme, url = url[:i].lower(), url[i+1:]
      if url[:2] == '//':
          netloc, url = _splitnetloc(url, 2)
          if (('[' in netloc and ']' not in netloc) or
                  (']' in netloc and '[' not in netloc)):
              raise ValueError("Invalid IPv6 URL")
          if '[' in netloc and ']' in netloc:
              bracketed_host = netloc.partition('[')[2].partition(']')[0]
              _check_bracketed_host(bracketed_host)
      if allow_fragments and '#' in url:
          url, fragment = url.split('#', 1)
      if '?' in url:
          url, query = url.split('?', 1)
      _checknetloc(netloc)
      return SplitResult(scheme, netloc, url, query, fragment)
  \<close>
  The crawler only ever parses with \<open>allow_fragments=True\<close>.
\<close>

definition split_rest :: "string \<Rightarrow> string \<Rightarrow> string \<Rightarrow> split_result" where
  "split_rest sch nl url =
     (let (url1, frag) =
            (if CHR ''#'' \<in> set url then (before CHR ''#'' url, after CHR ''#'' url)
             else (url, []));
          (url2, qry) =
            (if CHR ''?'' \<in> set url1 then (before CHR ''?'' url1, after CHR ''?'' url1)
             else (url1, []))
      in (sch, nl, url2, qry, frag))"

definition urlsplit :: "(string \<Rightarrow> bool) \<Rightarrow> string \<Rightarrow> string \<Rightarrow> exn + split_result" where
  "urlsplit chk url0 scheme0 =
     (let url = remove_unsafe (lstrip_c0 url0);
          sch0 = remove_unsafe (strip_c0 scheme0);
          (sch, url1) =
            (if has_scheme url then (lower (before CHR '':'' url), after CHR '':'' url)
             else (sch0, url))
      in if take 2 url1 = ''//'' then
           (let (nl, url2) = splitnetloc url1 2
            in if (CHR ''['' \<in> set nl \<and> CHR '']'' \<notin> set nl)
                  \<or> (CHR '']'' \<in> set nl \<and> CHR ''['' \<notin> set nl)
               then Inl ValueError
               else if CHR ''['' \<in> set nl \<and> CHR '']'' \<in> set nl
                       \<and> \<not> chk (before CHR '']'' (after CHR ''['' nl))
               then Inl ValueError
               else Inr (split_rest sch nl url2))
         else Inr (split_rest sch [] url1))"

text \<open>
  \<^verbatim>\<open>
  def _splitparams(url):
      if '/'  in url:
          i = url.find(';', url.rfind('/'))
          if i < 0:
              return url, ''
      else:
          i = url.find(';')
      return url[:i], url[i+1:]
  \<close>
  \<open>upto_last c s\<close> is \<open>s[:s.rfind(c) + 1]\<close>.
\<close>

definition upto_last :: "char \<Rightarrow> string \<Rightarrow> string" where
  "upto_last c s = rev (dropWhile (\<lambda>x. x \<noteq> c) (rev s))"

definition splitparams :: "string \<Rightarrow> string \<times> string" where
  "splitparams url =
     (if CHR ''/'' \<in> set url then
        (if CHR '';'' \<in> set (after_last CHR ''/'' url)
         then (upto_last CHR ''/'' url @ before CHR '';'' (after_last CHR ''/'' url),
               after CHR '';'' (after_last CHR ''/'' url))
         else (url, []))
      else (before CHR '';'' url, after CHR '';'' url))"

record parse_result =
  scheme :: string
  netloc :: string
  path :: string
  params :: string
  query :: string
  fragment :: string

text \<open>
  \<^verbatim>\<open>
  def urlparse(url, scheme='', allow_fragments=True):
      splitresult = urlsplit(url, scheme, allow_fragments)
      scheme, netloc, url, query, fragment = splitresult
      if scheme in uses_params and ';' in url:
          url, params = _splitparams(url)
      else:
          params = ''
      return ParseResult(scheme, netloc, url, params, query, fragment)
  \<close>
\<close>

definition urlparse :: "(string \<Rightarrow> bool) \<Rightarrow> string \<Rightarrow> string \<Rightarrow> exn + parse_result" where
  "urlparse chk url scheme0 =
     (case urlsplit chk url scheme0 of
        Inl e \<Rightarrow> Inl e
      | Inr (sch, nl, url1, qry, frag) \<Rightarrow>
          (let (url2, prm) =
                 (if sch \<in> set uses_params \<and> CHR '';'' \<in> set url1 then splitparams url1
                  else (url1, []))
           in Inr \<lparr>scheme = sch, netloc = nl, path = url2, params = prm,
                    query = qry, fragment = frag\<rparr>))"

text \<open>
  The \<open>hostname\<close> property of a parse result; \<open>None\<close> is Python's \<open>None\<close>.
  \<^verbatim>\<open>
  def _hostinfo(self):
      netloc = self.netloc
      _, _, hostinfo = netloc.rpartition('@')
      _, have_open_br, bracketed = hostinfo.partition('[')
      if have_open_br:
          hostname, _, port = bracketed.partition(']')
          _, _, port = port.partition(':')
      else:
          hostname, _, port = hostinfo.partition(':')
      ...
      return hostname, port

  def hostname(self):
      hostname = self._hostinfo[0]
      if not hostname:
          return None
      separator = '%' if isinstance(hostname, str) else b'%'
      hostname, percent, zone = hostname.partition(separator)
      return hostname.lower() + percent + zone
  \<close>
\<close>

definition hostinfo_host :: "string \<Rightarrow> string" where
  "hostinfo_host nl =
     (let hostinfo = after_last CHR ''@'' nl
      in if CHR ''['' \<in> set hostinfo then before CHR '']'' (after CHR ''['' hostinfo)
         else before CHR '':'' hostinfo)"

definition hostname :: "parse_result \<Rightarrow> string option" where
  "hostname r =
     (let h = hostinfo_host (netloc r)
      in if h = [] then None
         else Some (lower (before CHR ''%'' h) @ dropWhile (\<lambda>x. x \<noteq> CHR ''%'') h))"

text \<open>
  \<^verbatim>\<open>
  def urlunsplit(components):
      scheme, netloc, url, query, fragment = components
      if netloc or (scheme and scheme in uses_netloc) or url[:2] == '//':
          if url and url[:1] != '/': url = '/' + url
          url = '//' + (netloc or '') + url
      if scheme:
          url = scheme + ':' + url
      if query:
          url = url + '?' + query
      if fragment:
          url = url + '#' + fragment
      return url

  def urlunparse(components):
      scheme, netloc, url, params, query, fragment = components
      if params:
          url = "%s;%s" % (url, params)
      return urlunsplit((scheme, netloc, url, query, fragment))
  \<close>
\<close>

definition urlunsplit :: "split_result \<Rightarrow> string" where
  "urlunsplit c =
     (case c of (sch, nl, url, qry, frag) \<Rightarrow>
        (let url1 =
               (if nl \<noteq> [] \<or> (sch \<noteq> [] \<and> sch \<in> set uses_netloc) \<or> take 2 url = ''//''
                then ''//'' @ nl @ (if url \<noteq> [] \<and> take 1 url \<noteq> ''/'' then ''/'' @ url else url)
                else url);
             url2 = (if sch \<noteq> [] then sch @ '':'' @ url1 else url1);
             url3 = (if qry \<noteq> [] then url2 @ ''?'' @ qry else url2)
         in if frag \<noteq> [] then url3 @ ''#'' @ frag else url3))"

definition urlunparse :: "parse_result \<Rightarrow> string" where
  "urlunparse r =
     urlunsplit (scheme r, netloc r,
                 if params r \<noteq> [] then path r @ '';'' @ params r else path r,
                 query r, fragment r)"

text \<open>
  \<^verbatim>\<open>
  def urldefrag(url):
      if '#' in url:
          s, n, p, a, q, frag = urlparse(url)
          defrag = urlunparse((s, n, p, a, q, ''))
      else:
          frag = ''
          defrag = url
      return DefragResult(defrag, frag)
  \<close>
\<close>

definition urldefrag :: "(string \<Rightarrow> bool) \<Rightarrow> string \<Rightarrow> exn + string \<times> string" where
  "urldefrag chk url =
     (if CHR ''#'' \<in> set url then
        (case urlparse chk url [] of
           Inl e \<Rightarrow> Inl e
         | Inr r \<Rightarrow> Inr (urlunparse (r\<lparr>fragment := []\<rparr>), fragment r))
      else Inr (url, []))"

text \<open>
  \<^verbatim>\<open>
  def urljoin(base, url, allow_fragments=True):
      if not base:
          return url
      if not url:
          return base
      bscheme, bnetloc, bpath, bparams, bquery, bfragment = \
              urlparse(base, '', allow_fragments)
      scheme, netloc, path, params, query, fragment = \
              urlparse(url, bscheme, allow_fragments)
      if scheme != bscheme or scheme not in uses_relative:
          return url
      if scheme in uses_netloc:
          if netloc:
              return urlunparse((scheme, netloc, path, params, query, fragment))
          netloc = bnetloc
      if not path and not params:
          path = bpath
          params = bparams
          if not query:
              query = bquery
          return urlunparse((scheme, netloc, path, params, query, fragment))
      base_parts = bpath.split('/')
      if base_parts[-1] != '':
          del base_parts[-1]
      if path[:1] == '/':
          segments = path.split('/')
      else:
          segments = base_parts + path.split('/')
          segments[1:-1] = filter(None, segments[1:-1])
      resolved_path = []
      for seg in segments:
          if seg == '..':
              try:
                  resolved_path.pop()
              except IndexError:
                  pass
          elif seg == '.':
              continue
          else:
              resolved_path.append(seg)
      if segments[-1] in ('.', '..'):
          resolved_path.append('')
      return urlunparse((scheme, netloc, '/'.join(resolved_path) or '/',
                         params, query, fragment))
  \<close>
\<close>

fun resolve_segments :: "string list \<Rightarrow> string list \<Rightarrow> string list" where
  "resolve_segments [] resolved = resolved"
| "resolve_segments (seg # segs) resolved =
     (if seg = ''..'' then resolve_segments segs (butlast resolved)
      else if seg = ''.'' then resolve_segments segs resolved
      else resolve_segments segs (resolved @ [seg]))"

definition join_segments :: "string \<Rightarrow> string \<Rightarrow> string list" where
  "join_segments bpath pth =
     (let base_parts0 = split_on CHR ''/'' bpath;
          base_parts = (if last base_parts0 \<noteq> [] then butlast base_parts0 else base_parts0)
      in if take 1 pth = ''/'' then split_on CHR ''/'' pth
         else (let segs = base_parts @ split_on CHR ''/'' pth
               in if length segs < 2 then segs
                  else hd segs # filter (\<lambda>w. w \<noteq> []) (butlast (tl segs)) @ [last segs]))"

definition resolved_path :: "string list \<Rightarrow> string" where
  "resolved_path segments =
     (let resolved = resolve_segments segments [];
          resolved1 = (if last segments = ''.'' \<or> last segments = ''..''
                       then resolved @ [[]] else resolved);
          joined = join ''/'' resolved1
      in if joined = [] then ''/'' else joined)"

definition urljoin :: "(string \<Rightarrow> bool) \<Rightarrow> string \<Rightarrow> string \<Rightarrow> exn + string" where
  "urljoin chk base url =
     (if base = [] then Inr url
      else if url = [] then Inr base
      else (case urlparse chk base [] of
              Inl e \<Rightarrow> Inl e
            | Inr b \<Rightarrow>
               (case urlparse chk url (scheme b) of
                  Inl e \<Rightarrow> Inl e
                | Inr r \<Rightarrow>
                   if scheme r \<noteq> scheme b \<or> scheme r \<notin> set uses_relative then Inr url
                   else if scheme r \<in> set uses_netloc \<and> netloc r \<noteq> [] then Inr (urlunparse r)
                   else (let nl = (if scheme r \<in> set uses_netloc then netloc b else netloc r)
                         in if path r = [] \<and> params r = [] then
                              Inr (urlunparse (r\<lparr>netloc := nl, path := path b, params := params b,
                                     query := (if query r = [] then query b else query r)\<rparr>))
                            else
                              Inr (urlunparse (r\<lparr>netloc := nl,
                                     path := resolved_path (join_segments (path b) (path r))\<rparr>))))))"

section \<open>Fetcher\<close>

text \<open>
  The network and the HTML parser are outside the program.  \<open>web E url\<close> is what
  opening, reading and parsing \<open>url\<close> gives: \<open>OpenFailed\<close> when \<open>_open\<close> returns
  \<open>(None, None)\<close>, \<open>Raised e\<close> when \<open>Request\<close>, \<open>handle.open\<close>, \<open>read\<close>, \<open>decode\<close> or
  \<open>BeautifulSoup\<close> raises \<open>e\<close>, and \<open>Page mime hrefs\<close> for a response of content type
  \<open>mime\<close> whose anchors carry the \<open>href\<close> attributes \<open>hrefs\<close> in document order
  (\<open>None\<close> for an anchor without one).
\<close>

datatype response = OpenFailed | Raised exn | Page string "string option list"

record env =
  bracket_ok :: "string \<Rightarrow> bool"
  web :: "string \<Rightarrow> response"

text \<open>
  \<^verbatim>\<open>
  for tag in tags:
      href = tag.get("href")
      if href is not None:
          url = urllib.parse.urljoin(self.url, escape(href))
          if url not in self:
              self.out_urls.append(url)
  \<close>
\<close>

fun add_hrefs :: "(string \<Rightarrow> bool) \<Rightarrow> string \<Rightarrow> string option list \<Rightarrow> string list
                  \<Rightarrow> exn + string list" where
  "add_hrefs chk u [] out_urls = Inr out_urls"
| "add_hrefs chk u (None # tags) out_urls = add_hrefs chk u tags out_urls"
| "add_hrefs chk u (Some href # tags) out_urls =
     (case urljoin chk u (escape href) of
        Inl e \<Rightarrow> Inl e
      | Inr url \<Rightarrow> add_hrefs chk u tags
                     (if url \<in> set out_urls then out_urls else out_urls @ [url]))"

text \<open>
  \<open>Fetcher(url).fetch()\<close> followed by \<open>out_links()\<close>.  \<open>OpaqueDataException\<close> is
  defined nowhere in the program, so the \<open>raise\<close> for a content type other than
  \<open>text/html\<close> raises \<open>NameError\<close>; neither \<open>except\<close> clause of \<open>fetch\<close> catches it.
  \<^verbatim>\<open>
  def fetch(self):
      request, handle = self._open()
      if handle:
          try:
              data = handle.open(request)
              mime_type = data.info().get_content_type()
              url = data.geturl()
              if mime_type != "text/html":
                  raise OpaqueDataException(f"Not interested in files of type {mime_type}", mime_type, url)
              content = data.read().decode("utf-8", errors="replace")
              soup = BeautifulSoup(content, "html.parser")
              tags = soup('a')
              for tag in tags: ...
          except urllib.error.HTTPError as error:
              print(f"ERROR: {error}", file=sys.stderr)
          except urllib.error.URLError as error:
              print(f"ERROR: {error}", file=sys.stderr)
  \<close>
\<close>

definition fetch :: "env \<Rightarrow> string \<Rightarrow> exn + string list" where
  "fetch E url =
     (case web E url of
        OpenFailed \<Rightarrow> Inr []
      | Raised e \<Rightarrow> (if e = HTTPError \<or> e = URLError then Inr [] else Inl e)
      | Page mime_type tags \<Rightarrow>
          if mime_type \<noteq> ''text/html'' then Inl NameError
          else add_hrefs (bracket_ok E) url tags [])"

section \<open>Crawler\<close>

text \<open>The class \<open>Link\<close>; \<open>__eq__\<close> compares the three fields, as record equality does.\<close>

record link =
  src :: string
  dst :: string
  link_type :: string

text \<open>The bound methods that the two filter lists hold.\<close>

datatype url_filter = Prefix_ok | Exclude_ok | Not_visited | Same_host

record crawler =
  root :: string
  host :: "string option"
  depth_limit :: int
  locked :: bool
  confine_prefix :: "string option"
  exclude_prefixes :: "string list"
  urls_seen :: "string set"
  urls_remembered :: "string set"
  visited_links :: "string set"
  links_remembered :: "link set"
  num_links :: int
  num_followed :: int
  pre_visit_filters :: "url_filter list"
  out_url_filters :: "url_filter list"

text \<open>
  \<^verbatim>\<open>
  def __init__(self, root, depth_limit, confine=None, exclude=[], locked=True, filter_seen=True):
      self.root = root
      self.host = urllib.parse.urlparse(root).hostname
      ...
      self.pre_visit_filters = [self._prefix_ok, self._exclude_ok, self._not_visited, self._same_host]
      self.out_url_filters = [self._prefix_ok, self._same_host] if filter_seen else []
  \<close>
  The constructor raises when \<open>urlparse(root)\<close> does.
\<close>

definition Crawler :: "(string \<Rightarrow> bool) \<Rightarrow> string \<Rightarrow> int \<Rightarrow> string option \<Rightarrow> string list
                       \<Rightarrow> bool \<Rightarrow> bool \<Rightarrow> exn + crawler" where
  "Crawler chk rt dl confine exclude lckd filter_seen =
     (case urlparse chk rt [] of
        Inl e \<Rightarrow> Inl e
      | Inr r \<Rightarrow>
          Inr \<lparr>root = rt, host = hostname r, depth_limit = dl, locked = lckd,
               confine_prefix = confine, exclude_prefixes = exclude,
               urls_seen = {}, urls_remembered = {}, visited_links = {},
               links_remembered = {}, num_links = 0, num_followed = 0,
               pre_visit_filters = [Prefix_ok, Exclude_ok, Not_visited, Same_host],
               out_url_filters = (if filter_seen then [Prefix_ok, Same_host] else [])\<rparr>)"

text \<open>
  \<^verbatim>\<open>
  def _pre_visit_url_condense(self, url):
      base, frag = urllib.parse.urldefrag(url)
      return base
  \<close>
\<close>

definition pre_visit_url_condense :: "(string \<Rightarrow> bool) \<Rightarrow> string \<Rightarrow> exn + string" where
  "pre_visit_url_condense chk url =
     (case urldefrag chk url of Inl e \<Rightarrow> Inl e | Inr (base, frag) \<Rightarrow> Inr base)"

text \<open>
  \<^verbatim>\<open>
  def _prefix_ok(self, url):
      return (self.confine_prefix is None or url.startswith(self.confine_prefix))
  def _exclude_ok(self, url):
      return all(not url.startswith(p) for p in self.exclude_prefixes)
  def _not_visited(self, url):
      return url not in self.visited_links
  def _same_host(self, url):
      try:
          host = urllib.parse.urlparse(url).hostname
          return host == self.host
      except Exception as e:
          print(f"ERROR: Can't process url '{url}' ({e})", file=sys.stderr)
          return False
  \<close>
\<close>

definition prefix_ok :: "crawler \<Rightarrow> string \<Rightarrow> bool" where
  "prefix_ok c url = (case confine_prefix c of None \<Rightarrow> True | Some p \<Rightarrow> startswith url p)"

definition exclude_ok :: "crawler \<Rightarrow> string \<Rightarrow> bool" where
  "exclude_ok c url = list_all (\<lambda>p. \<not> startswith url p) (exclude_prefixes c)"

definition not_visited :: "crawler \<Rightarrow> string \<Rightarrow> bool" where
  "not_visited c url = (url \<notin> visited_links c)"

definition same_host :: "(string \<Rightarrow> bool) \<Rightarrow> crawler \<Rightarrow> string \<Rightarrow> bool" where
  "same_host chk c url =
     (case urlparse chk url [] of Inl e \<Rightarrow> False | Inr r \<Rightarrow> hostname r = host c)"

fun apply_filter :: "(string \<Rightarrow> bool) \<Rightarrow> crawler \<Rightarrow> url_filter \<Rightarrow> string \<Rightarrow> bool" where
  "apply_filter chk c Prefix_ok url = prefix_ok c url"
| "apply_filter chk c Exclude_ok url = exclude_ok c url"
| "apply_filter chk c Not_visited url = not_visited c url"
| "apply_filter chk c Same_host url = same_host chk c url"

text \<open>
  The state of one run of \<open>crawl\<close>: the crawler object, the local queue \<open>q\<close> (a FIFO:
  \<open>put\<close> appends, \<open>get\<close> takes the head), and a \<open>trace\<close> that records every \<open>q.put\<close>
  and every \<open>Fetcher(this_url)\<close> with the depth of the item, in order.  The trace is
  written and never read.
\<close>

datatype event = Put string int | Fetch string int

record run =
  self :: crawler
  frontier :: "(string \<times> int) list"
  trace :: "event list"

text \<open>\<open>[self._pre_visit_url_condense(l) for l in page.out_links()]\<close>: the whole list is
  built before the loop over it starts, and a raise abandons it.\<close>

fun condense_all :: "(string \<Rightarrow> bool) \<Rightarrow> string list \<Rightarrow> exn + string list" where
  "condense_all chk [] = Inr []"
| "condense_all chk (l # ls) =
     (case pre_visit_url_condense chk l of
        Inl e \<Rightarrow> Inl e
      | Inr b \<Rightarrow> (case condense_all chk ls of Inl e \<Rightarrow> Inl e | Inr bs \<Rightarrow> Inr (b # bs)))"

text \<open>
  The body of the loop over the condensed links:
  \<^verbatim>\<open>
  if link_url not in self.urls_seen:
      q.put((link_url, depth + 1))
      self.urls_seen.add(link_url)
  do_not_remember = [f for f in self.out_url_filters if not f(link_url)]
  if not do_not_remember:
      self.num_links += 1
      self.urls_remembered.add(link_url)
      link = Link(this_url, link_url, "href")
      if link not in self.links_remembered:
          self.links_remembered.add(link)
  \<close>
\<close>

definition enqueue_unseen :: "int \<Rightarrow> string \<Rightarrow> run \<Rightarrow> run" where
  "enqueue_unseen depth link_url s =
     (if link_url \<notin> urls_seen (self s) then
        s\<lparr>self := (self s)\<lparr>urls_seen := insert link_url (urls_seen (self s))\<rparr>,
          frontier := frontier s @ [(link_url, depth + 1)],
          trace := trace s @ [Put link_url (depth + 1)]\<rparr>
      else s)"

definition remember :: "(string \<Rightarrow> bool) \<Rightarrow> string \<Rightarrow> string \<Rightarrow> run \<Rightarrow> run" where
  "remember chk this_url link_url s =
     (let c = self s;
          do_not_remember = filter (\<lambda>f. \<not> apply_filter chk c f link_url) (out_url_filters c)
      in if do_not_remember = [] then
           s\<lparr>self := c\<lparr>num_links := num_links c + 1,
                        urls_remembered := insert link_url (urls_remembered c),
                        links_remembered :=
                          insert \<lparr>src = this_url, dst = link_url, link_type = ''href''\<rparr>
                                 (links_remembered c)\<rparr>\<rparr>
         else s)"

definition visit_link :: "(string \<Rightarrow> bool) \<Rightarrow> string \<Rightarrow> int \<Rightarrow> run \<Rightarrow> string \<Rightarrow> run" where
  "visit_link chk this_url depth s link_url =
     remember chk this_url link_url (enqueue_unseen depth link_url s)"

text \<open>
  One iteration of \<open>while not q.empty()\<close>:
  \<^verbatim>\<open>
  this_url, depth = q.get()
  if depth > self.depth_limit:
      continue
  do_not_follow = [f for f in self.pre_visit_filters if not f(this_url)]
  if depth == 0 and do_not_follow:
      print(..., file=sys.stderr)
  if not do_not_follow:
      try:
          self.visited_links.add(this_url)
          self.num_followed += 1
          page = Fetcher(this_url)
          page.fetch()
          for link_url in [self._pre_visit_url_condense(l) for l in page.out_links()]:
              ...
      except Exception as e:
          print(f"ERROR: Can't process url '{this_url}' ({e})", file=sys.stderr)
  \<close>
  The diagnostics on standard error are not part of the state.
\<close>

definition mark_visited :: "string \<Rightarrow> int \<Rightarrow> run \<Rightarrow> run" where
  "mark_visited this_url depth s =
     s\<lparr>self := (self s)\<lparr>visited_links := insert this_url (visited_links (self s)),
                        num_followed := num_followed (self s) + 1\<rparr>,
       trace := trace s @ [Fetch this_url depth]\<rparr>"

definition crawl_item :: "env \<Rightarrow> string \<Rightarrow> int \<Rightarrow> run \<Rightarrow> run" where
  "crawl_item E this_url depth s =
     (if depth > depth_limit (self s) then s
      else (let do_not_follow =
                  filter (\<lambda>f. \<not> apply_filter (bracket_ok E) (self s) f this_url)
                         (pre_visit_filters (self s))
            in if do_not_follow \<noteq> [] then s
               else (let s1 = mark_visited this_url depth s
                     in case fetch E this_url of
                          Inl e \<Rightarrow> s1
                        | Inr out_links \<Rightarrow>
                            (case condense_all (bracket_ok E) out_links of
                               Inl e \<Rightarrow> s1
                             | Inr links \<Rightarrow>
                                 foldl (visit_link (bracket_ok E) this_url depth) s1 links))))"

definition crawl_step :: "env \<Rightarrow> run \<Rightarrow> run" where
  "crawl_step E s =
     (case frontier s of
        [] \<Rightarrow> s
      | (this_url, depth) # rest \<Rightarrow> crawl_item E this_url depth (s\<lparr>frontier := rest\<rparr>))"

text \<open>The weight of a queue for the termination of the loop: an item of depth \<open>d\<close>
  weighs \<open>depth_limit + 1 - d\<close>, and whatever it puts on the queue weighs less.\<close>

definition item_weight :: "int \<Rightarrow> string \<times> int \<Rightarrow> nat" where
  "item_weight dl item = nat (dl + 1 - snd item)"

definition run_weight :: "run \<Rightarrow> nat multiset" where
  "run_weight s = mset (map (item_weight (depth_limit (self s))) (frontier s))"

subsection \<open>The loop and its termination\<close>

lemma self_enqueue_unseen [simp]:
  "self (enqueue_unseen d v s) = (self s)\<lparr>urls_seen := insert v (urls_seen (self s))\<rparr>"
  by (cases "self s") (auto simp: enqueue_unseen_def insert_absorb)

lemma frontier_remember [simp]: "frontier (remember chk u v s) = frontier s"
  by (simp add: remember_def Let_def)

lemma trace_remember [simp]: "trace (remember chk u v s) = trace s"
  by (simp add: remember_def Let_def)

lemma depth_limit_visit_link [simp]:
  "depth_limit (self (visit_link chk u d s v)) = depth_limit (self s)"
  by (simp add: visit_link_def remember_def Let_def)

lemma depth_limit_foldl_visit_link [simp]:
  "depth_limit (self (foldl (visit_link chk u d) s vs)) = depth_limit (self s)"
  by (induction vs arbitrary: s) simp_all

lemma frontier_visit_link:
  "\<exists>xs. frontier (visit_link chk u d s v) = frontier s @ map (\<lambda>x. (x, d + 1)) xs"
proof (cases "v \<in> urls_seen (self s)")
  case True
  then have "frontier (visit_link chk u d s v) = frontier s @ map (\<lambda>x. (x, d + 1)) []"
    by (simp add: visit_link_def enqueue_unseen_def)
  then show ?thesis by blast
next
  case False
  then have "frontier (visit_link chk u d s v) = frontier s @ map (\<lambda>x. (x, d + 1)) [v]"
    by (simp add: visit_link_def enqueue_unseen_def)
  then show ?thesis by blast
qed

lemma frontier_foldl_visit_link:
  "\<exists>xs. frontier (foldl (visit_link chk u d) s vs) = frontier s @ map (\<lambda>x. (x, d + 1)) xs"
proof (induction vs arbitrary: s)
  case Nil
  have "frontier s = frontier s @ map (\<lambda>x. (x, d + 1)) []" by simp
  then show ?case by (metis foldl_Nil)
next
  case (Cons v vs)
  obtain xs where xs: "frontier (visit_link chk u d s v) = frontier s @ map (\<lambda>x. (x, d + 1)) xs"
    using frontier_visit_link by blast
  obtain ys where ys: "frontier (foldl (visit_link chk u d) (visit_link chk u d s v) vs)
      = frontier (visit_link chk u d s v) @ map (\<lambda>x. (x, d + 1)) ys"
    using Cons.IH by blast
  have "frontier (foldl (visit_link chk u d) s (v # vs)) = frontier s @ map (\<lambda>x. (x, d + 1)) (xs @ ys)"
    using xs ys by simp
  then show ?case by blast
qed

lemma depth_limit_crawl_item [simp]:
  "depth_limit (self (crawl_item E u d s)) = depth_limit (self s)"
  by (simp add: crawl_item_def mark_visited_def Let_def split: sum.splits)

lemma frontier_crawl_item:
  "\<exists>xs. frontier (crawl_item E u d s) = frontier s @ map (\<lambda>x. (x, d + 1)) xs
        \<and> (depth_limit (self s) < d \<longrightarrow> xs = [])"
proof (cases "depth_limit (self s) < d")
  case True
  then have "frontier (crawl_item E u d s) = frontier s @ map (\<lambda>x. (x, d + 1)) []"
    by (simp add: crawl_item_def)
  with True show ?thesis by blast
next
  case False
  have "\<exists>xs. frontier (crawl_item E u d s) = frontier s @ map (\<lambda>x. (x, d + 1)) xs"
  proof (cases "\<exists>links. crawl_item E u d s
                  = foldl (visit_link (bracket_ok E) u d) (mark_visited u d s) links")
    case True
    then obtain links where "crawl_item E u d s
        = foldl (visit_link (bracket_ok E) u d) (mark_visited u d s) links" by blast
    moreover have "frontier (mark_visited u d s) = frontier s" by (simp add: mark_visited_def)
    ultimately show ?thesis
      using frontier_foldl_visit_link[of "bracket_ok E" u d "mark_visited u d s" links] by simp
  next
    case False
    then have "frontier (crawl_item E u d s) = frontier s"
      by (auto simp: crawl_item_def mark_visited_def Let_def split: sum.splits if_splits)
    then have "frontier (crawl_item E u d s) = frontier s @ map (\<lambda>x. (x, d + 1)) []" by simp
    then show ?thesis by blast
  qed
  with False show ?thesis by blast
qed

lemma run_weight_crawl_step:
  assumes "frontier s \<noteq> []"
  shows "(run_weight (crawl_step E s), run_weight s) \<in> mult less_than"
proof -
  obtain u d rest where fr: "frontier s = (u, d) # rest"
    using assms by (cases "frontier s") auto
  let ?s = "s\<lparr>frontier := rest\<rparr>"
  let ?dl = "depth_limit (self s)"
  obtain xs where xs: "frontier (crawl_item E u d ?s) = rest @ map (\<lambda>x. (x, d + 1)) xs"
    and nil: "?dl < d \<longrightarrow> xs = []"
    using frontier_crawl_item[of E u d ?s] by auto
  have step: "crawl_step E s = crawl_item E u d ?s" by (simp add: crawl_step_def fr)
  let ?I = "mset (map (item_weight ?dl) rest)"
  let ?K = "mset (map (item_weight ?dl) (map (\<lambda>x. (x, d + 1)) xs))"
  let ?J = "{#item_weight ?dl (u, d)#}"
  have a: "run_weight (crawl_step E s) = ?I + ?K"
    by (simp add: run_weight_def step xs)
  have b: "run_weight s = ?I + ?J" by (simp add: run_weight_def fr)
  have "\<forall>k \<in> set_mset ?K. \<exists>j \<in> set_mset ?J. (k, j) \<in> less_than"
    using nil by (auto simp: item_weight_def)
  then have "(?I + ?K, ?I + ?J) \<in> mult less_than"
    by (intro one_step_implies_mult) auto
  with a b show ?thesis by simp
qed

function crawl_loop :: "env \<Rightarrow> run \<Rightarrow> run" where
  "crawl_loop E s = (if frontier s = [] then s else crawl_loop E (crawl_step E s))"
  by pat_completeness auto
termination
proof (relation "inv_image (mult less_than) (\<lambda>(E, s). run_weight s)")
  show "wf (inv_image (mult less_than) (\<lambda>(E, s). run_weight s))"
    by (intro wf_inv_image wf_mult wf_less_than)
next
  fix E :: env and s :: run
  assume "frontier s \<noteq> []"
  then show "((E, crawl_step E s), (E, s)) \<in> inv_image (mult less_than) (\<lambda>(E, s). run_weight s)"
    by (simp add: run_weight_crawl_step)
qed

text \<open>
  \<^verbatim>\<open>
  def crawl(self):
      q = Queue()
      q.put((self.root, 0))
      while not q.empty():
          ...
  \<close>
  \<open>crawl_run\<close> is the run with its trace, \<open>crawl\<close> the crawler object it leaves.
\<close>

definition crawl_run :: "env \<Rightarrow> crawler \<Rightarrow> run" where
  "crawl_run E c = crawl_loop E \<lparr>self = c, frontier = [(root c, 0)], trace = [Put (root c) 0]\<rparr>"

definition crawl :: "env \<Rightarrow> crawler \<Rightarrow> crawler" where
  "crawl E c = self (crawl_run E c)"

section \<open>The command line\<close>

text \<open>\<open>str(j)\<close> for a counter \<open>j\<close>\<close>

fun str_nat :: "nat \<Rightarrow> string" where
  "str_nat n = (if n < 10 then [char_of (48 + n)]
                else str_nat (n div 10) @ [char_of (48 + n mod 10)])"

text \<open>
  \<^verbatim>\<open>
  def getLinks(url):
      page = Fetcher(url)
      page.fetch()
      j = 1
      for i, url in enumerate(page):
          if "http" in url:
              print(f"{j}. {url}")
              j += 1
  \<close>
  The result is the list of lines printed on standard output, or the exception that
  \<open>fetch\<close> raised (nothing is printed then).
\<close>

fun print_links :: "nat \<Rightarrow> string list \<Rightarrow> string list" where
  "print_links j [] = []"
| "print_links j (url # urls) =
     (if str_contains ''http'' url then (str_nat j @ ''. '' @ url) # print_links (j + 1) urls
      else print_links j urls)"

definition getLinks :: "env \<Rightarrow> string \<Rightarrow> exn + string list" where
  "getLinks E url =
     (case fetch E url of Inl e \<Rightarrow> Inl e | Inr out_urls \<Rightarrow> Inr (print_links 1 out_urls))"

text \<open>
  \<open>main\<close> after \<open>parse_options\<close>, which is \<open>optparse\<close>'s work: \<open>links\<close> is
  \<open>opts.links\<close>, \<open>dl\<close> is \<open>opts.depth_limit\<close> and \<open>url\<close> is \<open>args[0]\<close>.
  \<^verbatim>\<open>
  def main():
      opts, args = parse_options()
      url = args[0]
      if opts.links:
          getLinks(url)
          sys.exit(0)
      depth_limit = opts.depth_limit
      crawler = Crawler(url, depth_limit)
      crawler.crawl()
      print(f"Found:    {crawler.num_links}", file=sys.stderr)
      print(f"Followed: {crawler.num_followed}", file=sys.stderr)
  \<close>
  \<open>Exit0 lines\<close>: \<open>lines\<close> were printed on standard output and the process exited with
  code 0; \<open>Crawled c\<close>: the crawl ended and the counters of \<open>c\<close> were reported;
  \<open>Uncaught e\<close>: the exception \<open>e\<close> ended the process.
\<close>

datatype outcome = Exit0 "string list" | Crawled crawler | Uncaught exn

definition main :: "env \<Rightarrow> bool \<Rightarrow> int \<Rightarrow> string \<Rightarrow> outcome" where
  "main E links dl url =
     (if links then
        (case getLinks E url of Inl e \<Rightarrow> Uncaught e | Inr lines \<Rightarrow> Exit0 lines)
      else
        (case Crawler (bracket_ok E) url dl None [] True True of
           Inl e \<Rightarrow> Uncaught e
         | Inr c \<Rightarrow> Crawled (crawl E c)))"

section \<open>Notions for the statements\<close>

text \<open>The fields that no statement of the loop assigns.\<close>

definition settings :: "crawler \<Rightarrow> string \<times> string option \<times> int \<times> string option \<times> string list \<times> url_filter list \<times> url_filter list" where
  "settings c = (root c, host c, depth_limit c, confine_prefix c, exclude_prefixes c,
                 pre_visit_filters c, out_url_filters c)"

text \<open>The fetches and the puts of a trace, in order, each with its depth.\<close>

definition fetches :: "event list \<Rightarrow> (string \<times> int) list" where
  "fetches tr = concat (map (\<lambda>e. case e of Fetch u d \<Rightarrow> [(u, d)] | Put u d \<Rightarrow> []) tr)"

definition puts :: "event list \<Rightarrow> (string \<times> int) list" where
  "puts tr = concat (map (\<lambda>e. case e of Put u d \<Rightarrow> [(u, d)] | Fetch u d \<Rightarrow> []) tr)"

text \<open>The item \<open>(u, d)\<close> is followed in state \<open>s\<close>: it is within the depth limit and
  \<open>do_not_follow\<close> is empty.\<close>

definition follows :: "env \<Rightarrow> string \<Rightarrow> int \<Rightarrow> run \<Rightarrow> bool" where
  "follows E u d s =
     (d \<le> depth_limit (self s) \<and>
      filter (\<lambda>f. \<not> apply_filter (bracket_ok E) (self s) f u) (pre_visit_filters (self s)) = [])"

definition visited_inv :: "run \<Rightarrow> bool" where
  "visited_inv s =
     (finite (visited_links (self s))
      \<and> num_followed (self s) = int (card (visited_links (self s)))
      \<and> distinct (map fst (fetches (trace s)))
      \<and> set (map fst (fetches (trace s))) = visited_links (self s)
      \<and> Not_visited \<in> set (pre_visit_filters (self s)))"

text \<open>A small site for concrete runs: the page at \<open>http://h/\<close> links to itself and to
  \<open>/a#x\<close>; every other URL fails to open.\<close>

definition site :: env where
  "site = \<lparr>bracket_ok = (\<lambda>h. True),
           web = (\<lambda>u. if u = ''http://h/'' then Page ''text/html'' [Some ''/'', Some ''/a#x'']
                      else Raised URLError)\<rparr>"

definition site_crawler :: crawler where
  "site_crawler =
     \<lparr>root = ''http://h/'', host = Some ''h'', depth_limit = 1, locked = True,
      confine_prefix = None, exclude_prefixes = [],
      urls_seen = {}, urls_remembered = {}, visited_links = {},
      links_remembered = {}, num_links = 0, num_followed = 0,
      pre_visit_filters = [Prefix_ok, Exclude_ok, Not_visited, Same_host],
      out_url_filters = [Prefix_ok, Same_host]\<rparr>"

definition depth_inv :: "run \<Rightarrow> bool" where
  "depth_inv s =
     ((\<forall>(u, d) \<in> set (fetches (trace s)). d \<le> depth_limit (self s) \<and> (u, d) \<in> set (puts (trace s)))
      \<and> (\<exists>pre. puts (trace s) = pre @ frontier s))"

text \<open>A site whose root is a PDF document.\<close>

definition pdf_site :: env where
  "pdf_site = \<lparr>bracket_ok = (\<lambda>h. True),
               web = (\<lambda>u. if u = ''http://h/'' then Page ''application/pdf'' [Some ''/a'']
                          else Raised URLError)\<rparr>"

(* DEFS-END *)

section \<open>Properties of the loop\<close>

declare crawl_loop.simps [simp del]

lemma crawl_loop_invariant:
  "P s \<Longrightarrow> (\<And>t. P t \<Longrightarrow> frontier t \<noteq> [] \<Longrightarrow> P (crawl_step E t)) \<Longrightarrow> P (crawl_loop E s)"
proof (induction E s rule: crawl_loop.induct)
  case (1 E s)
  show ?case
  proof (cases "frontier s = []")
    case True
    with "1.prems"(1) show ?thesis by (simp add: crawl_loop.simps[of E s])
  next
    case False
    have step: "P (crawl_step E s)" by (rule "1.prems"(2)[OF "1.prems"(1) False])
    have "P (crawl_loop E (crawl_step E s))"
      by (rule "1.IH"[OF False step]) (rule "1.prems"(2))
    with False show ?thesis by (simp add: crawl_loop.simps[of E s])
  qed
qed

lemma frontier_crawl_loop [simp]: "frontier (crawl_loop E s) = []"
proof (induction E s rule: crawl_loop.induct)
  case (1 E s)
  then show ?case by (cases "frontier s = []") (simp_all add: crawl_loop.simps[of E s])
qed

lemma settings_visit_link [simp]: "settings (self (visit_link chk u d s v)) = settings (self s)"
  by (simp add: visit_link_def remember_def settings_def Let_def)

lemma settings_foldl_visit_link [simp]:
  "settings (self (foldl (visit_link chk u d) s vs)) = settings (self s)"
  by (induction vs arbitrary: s) simp_all

lemma settings_crawl_item [simp]: "settings (self (crawl_item E u d s)) = settings (self s)"
proof -
  have "settings (self (mark_visited u d s)) = settings (self s)"
    by (simp add: mark_visited_def settings_def)
  then show ?thesis
    by (simp add: crawl_item_def Let_def split: sum.splits)
qed

lemma settings_crawl_step [simp]: "settings (self (crawl_step E s)) = settings (self s)"
proof (cases "frontier s")
  case Nil
  then show ?thesis by (simp add: crawl_step_def)
next
  case (Cons a rest)
  obtain u d where "a = (u, d)" by (cases a)
  with Cons have "crawl_step E s = crawl_item E u d (s\<lparr>frontier := rest\<rparr>)"
    by (simp add: crawl_step_def)
  then show ?thesis by simp
qed

lemma settings_crawl_loop [simp]: "settings (self (crawl_loop E s)) = settings (self s)"
proof (rule crawl_loop_invariant[where P = "\<lambda>t. settings (self t) = settings (self s)"])
  show "settings (self s) = settings (self s)" ..
next
  fix t :: run
  assume "settings (self t) = settings (self s)"
  then show "settings (self (crawl_step E t)) = settings (self s)"
    by (simp only: settings_crawl_step)
qed

lemma fetches_append [simp]: "fetches (xs @ ys) = fetches xs @ fetches ys"
  by (simp add: fetches_def)

lemma puts_append [simp]: "puts (xs @ ys) = puts xs @ puts ys"
  by (simp add: puts_def)

lemma fetches_simps [simp]:
  "fetches [] = []" "fetches (Fetch u d # tr) = (u, d) # fetches tr" "fetches (Put u d # tr) = fetches tr"
  by (simp_all add: fetches_def)

lemma puts_simps [simp]:
  "puts [] = []" "puts (Put u d # tr) = (u, d) # puts tr" "puts (Fetch u d # tr) = puts tr"
  by (simp_all add: puts_def)

lemma crawl_step_Cons:
  "frontier s = (u, d) # rest \<Longrightarrow> crawl_step E s = crawl_item E u d (s\<lparr>frontier := rest\<rparr>)"
  by (simp add: crawl_step_def)

lemma crawl_loop_Nil: "frontier s = [] \<Longrightarrow> crawl_loop E s = s"
  by (simp add: crawl_loop.simps[of E s])

lemma crawl_loop_Cons:
  "frontier s = (u, d) # rest \<Longrightarrow>
   crawl_loop E s = crawl_loop E (crawl_item E u d (s\<lparr>frontier := rest\<rparr>))"
  by (simp add: crawl_loop.simps[of E s] crawl_step_Cons)

lemma crawl_item_too_deep:
  "depth_limit (self s) < d \<Longrightarrow> crawl_item E u d s = s"
  by (simp add: crawl_item_def)

lemma visit_link_fetches [simp]: "fetches (trace (visit_link chk u d s v)) = fetches (trace s)"
  by (simp add: visit_link_def enqueue_unseen_def)

lemma foldl_visit_link_fetches [simp]:
  "fetches (trace (foldl (visit_link chk u d) s vs)) = fetches (trace s)"
  by (induction vs arbitrary: s) simp_all

lemma visit_link_visited [simp]:
  "visited_links (self (visit_link chk u d s v)) = visited_links (self s)"
  "num_followed (self (visit_link chk u d s v)) = num_followed (self s)"
  by (simp_all add: visit_link_def remember_def Let_def)

lemma foldl_visit_link_visited [simp]:
  "visited_links (self (foldl (visit_link chk u d) s vs)) = visited_links (self s)"
  "num_followed (self (foldl (visit_link chk u d) s vs)) = num_followed (self s)"
  by (induction vs arbitrary: s) simp_all

lemma crawl_item_not_follows: "\<not> follows E u d s \<Longrightarrow> crawl_item E u d s = s"
  by (auto simp: crawl_item_def follows_def Let_def)

lemma crawl_item_follows_visited:
  assumes "follows E u d s"
  shows "visited_links (self (crawl_item E u d s)) = insert u (visited_links (self s))"
    and "num_followed (self (crawl_item E u d s)) = num_followed (self s) + 1"
    and "fetches (trace (crawl_item E u d s)) = fetches (trace s) @ [(u, d)]"
  using assms
  by (auto simp: crawl_item_def follows_def Let_def mark_visited_def split: sum.splits)

lemma Crawler_Inr:
  assumes "Crawler chk rt dl confine exclude lk fs = Inr c"
  shows "root c = rt" "depth_limit c = dl" "confine_prefix c = confine"
    "exclude_prefixes c = exclude" "locked c = lk"
    "urls_seen c = {}" "urls_remembered c = {}" "visited_links c = {}"
    "links_remembered c = {}" "num_links c = 0" "num_followed c = 0"
    "pre_visit_filters c = [Prefix_ok, Exclude_ok, Not_visited, Same_host]"
    "out_url_filters c = (if fs then [Prefix_ok, Same_host] else [])"
    "\<exists>r. urlparse chk rt [] = Inr r \<and> host c = hostname r"
  using assms by (auto simp: Crawler_def split: sum.splits)

subsection \<open>Visited links and the counter\<close>

lemma follows_not_visited:
  assumes "follows E u d s" and "Not_visited \<in> set (pre_visit_filters (self s))"
  shows "u \<notin> visited_links (self s)"
proof -
  from assms(1) have "\<forall>f \<in> set (pre_visit_filters (self s)). apply_filter (bracket_ok E) (self s) f u"
    by (simp add: follows_def filter_empty_conv)
  with assms(2) have "apply_filter (bracket_ok E) (self s) Not_visited u" by blast
  then show ?thesis by (simp add: not_visited_def)
qed

lemma pre_visit_filters_crawl_item [simp]:
  "pre_visit_filters (self (crawl_item E u d s)) = pre_visit_filters (self s)"
  using settings_crawl_item[of E u d s] by (simp add: settings_def)

lemma visited_inv_crawl_item:
  assumes "visited_inv s"
  shows "visited_inv (crawl_item E u d s)"
proof (cases "follows E u d s")
  case False
  with assms show ?thesis by (simp add: crawl_item_not_follows)
next
  case True
  from assms have nv: "Not_visited \<in> set (pre_visit_filters (self s))"
    and fin: "finite (visited_links (self s))"
    and cnt: "num_followed (self s) = int (card (visited_links (self s)))"
    and dis: "distinct (map fst (fetches (trace s)))"
    and st: "set (map fst (fetches (trace s))) = visited_links (self s)"
    by (simp_all add: visited_inv_def)
  have new: "u \<notin> visited_links (self s)" by (rule follows_not_visited[OF True nv])
  note ci = crawl_item_follows_visited[OF True]
  have "finite (visited_links (self (crawl_item E u d s)))" using fin by (simp add: ci)
  moreover have "num_followed (self (crawl_item E u d s))
      = int (card (visited_links (self (crawl_item E u d s))))"
    using fin new cnt by (simp add: ci)
  moreover have "distinct (map fst (fetches (trace (crawl_item E u d s))))"
    using dis st new by (simp add: ci)
  moreover have "set (map fst (fetches (trace (crawl_item E u d s))))
      = visited_links (self (crawl_item E u d s))"
    using st by (simp add: ci)
  moreover have "Not_visited \<in> set (pre_visit_filters (self (crawl_item E u d s)))"
    using nv by simp
  ultimately show ?thesis by (simp add: visited_inv_def)
qed

lemma visited_inv_crawl_step: "visited_inv s \<Longrightarrow> visited_inv (crawl_step E s)"
proof (cases "frontier s")
  case Nil
  assume "visited_inv s"
  with Nil show ?thesis by (simp add: crawl_step_def)
next
  case (Cons a rest)
  assume inv: "visited_inv s"
  obtain u d where a: "a = (u, d)" by (cases a)
  from inv have "visited_inv (s\<lparr>frontier := rest\<rparr>)" by (simp add: visited_inv_def)
  then have "visited_inv (crawl_item E u d (s\<lparr>frontier := rest\<rparr>))"
    by (rule visited_inv_crawl_item)
  with Cons a show ?thesis by (simp add: crawl_step_Cons)
qed

lemma visited_inv_crawl_run:
  assumes "Crawler chk rt dl confine exclude lk fs = Inr c"
  shows "visited_inv (crawl_run E c)"
  unfolding crawl_run_def
proof (rule crawl_loop_invariant)
  show "visited_inv \<lparr>self = c, frontier = [(root c, 0)], trace = [Put (root c) 0]\<rparr>"
    using Crawler_Inr[OF assms] by (simp add: visited_inv_def)
next
  fix t :: run
  assume "visited_inv t"
  then show "visited_inv (crawl_step E t)" by (rule visited_inv_crawl_step)
qed

text \<open>
  C2: after every crawl the number of visited links is \<open>num_followed\<close>, and no URL is
  fetched twice: the URLs of the fetches of the run are pairwise distinct and are exactly
  the visited links.
\<close>

theorem visited_links_counted:
  assumes "Crawler chk rt dl confine exclude lk fs = Inr c"
  shows "finite (visited_links (crawl E c))
       \<and> num_followed (crawl E c) = int (card (visited_links (crawl E c)))
       \<and> distinct (map fst (fetches (trace (crawl_run E c))))
       \<and> set (map fst (fetches (trace (crawl_run E c)))) = visited_links (crawl E c)"
  using visited_inv_crawl_run[OF assms, of E] by (simp add: visited_inv_def crawl_def)

lemma site_crawler_init:
  "Crawler (\<lambda>h. True) ''http://h/'' 1 None [] True True = Inr site_crawler"
  unfolding site_crawler_def by code_simp

theorem visited_links_counted_witness:
  "Crawler (\<lambda>h. True) ''http://h/'' 1 None [] True True = Inr site_crawler
   \<and> finite (visited_links (crawl site site_crawler))
   \<and> num_followed (crawl site site_crawler) = int (card (visited_links (crawl site site_crawler)))
   \<and> distinct (map fst (fetches (trace (crawl_run site site_crawler))))
   \<and> set (map fst (fetches (trace (crawl_run site site_crawler))))
       = visited_links (crawl site site_crawler)"
  using site_crawler_init visited_links_counted[OF site_crawler_init, of site] by simp

lemma visit_link_puts:
  "\<exists>new. frontier (visit_link chk u d s v) = frontier s @ new
         \<and> puts (trace (visit_link chk u d s v)) = puts (trace s) @ new"
proof (cases "v \<in> urls_seen (self s)")
  case True
  then have "frontier (visit_link chk u d s v) = frontier s @ []
      \<and> puts (trace (visit_link chk u d s v)) = puts (trace s) @ []"
    by (simp add: visit_link_def enqueue_unseen_def)
  then show ?thesis by blast
next
  case False
  then have "frontier (visit_link chk u d s v) = frontier s @ [(v, d + 1)]
      \<and> puts (trace (visit_link chk u d s v)) = puts (trace s) @ [(v, d + 1)]"
    by (simp add: visit_link_def enqueue_unseen_def)
  then show ?thesis by blast
qed

lemma foldl_visit_link_puts:
  "\<exists>new. frontier (foldl (visit_link chk u d) s vs) = frontier s @ new
         \<and> puts (trace (foldl (visit_link chk u d) s vs)) = puts (trace s) @ new"
proof (induction vs arbitrary: s)
  case Nil
  have "frontier s = frontier s @ [] \<and> puts (trace s) = puts (trace s) @ []" by simp
  then show ?case unfolding foldl_Nil by blast
next
  case (Cons v vs)
  obtain n1 where n1: "frontier (visit_link chk u d s v) = frontier s @ n1"
      "puts (trace (visit_link chk u d s v)) = puts (trace s) @ n1"
    using visit_link_puts by blast
  obtain n2 where n2: "frontier (foldl (visit_link chk u d) (visit_link chk u d s v) vs)
         = frontier (visit_link chk u d s v) @ n2"
      "puts (trace (foldl (visit_link chk u d) (visit_link chk u d s v) vs))
         = puts (trace (visit_link chk u d s v)) @ n2"
    using Cons.IH by blast
  have "frontier (foldl (visit_link chk u d) s (v # vs)) = frontier s @ (n1 @ n2)
      \<and> puts (trace (foldl (visit_link chk u d) s (v # vs))) = puts (trace s) @ (n1 @ n2)"
    using n1 n2 by simp
  then show ?case by blast
qed

lemma crawl_item_puts:
  "\<exists>new. frontier (crawl_item E u d s) = frontier s @ new
         \<and> puts (trace (crawl_item E u d s)) = puts (trace s) @ new"
proof (cases "\<exists>links. crawl_item E u d s
                = foldl (visit_link (bracket_ok E) u d) (mark_visited u d s) links")
  case True
  then obtain links where l: "crawl_item E u d s
      = foldl (visit_link (bracket_ok E) u d) (mark_visited u d s) links" by blast
  have m: "frontier (mark_visited u d s) = frontier s"
      "puts (trace (mark_visited u d s)) = puts (trace s)"
    by (simp_all add: mark_visited_def)
  show ?thesis
    using foldl_visit_link_puts[of "bracket_ok E" u d "mark_visited u d s" links]
    by (simp add: l m)
next
  case False
  then have "frontier (crawl_item E u d s) = frontier s @ []
      \<and> puts (trace (crawl_item E u d s)) = puts (trace s) @ []"
    by (auto simp: crawl_item_def mark_visited_def Let_def split: sum.splits if_splits)
  then show ?thesis by blast
qed

lemma depth_limit_self_crawl_item [simp]:
  "depth_limit (self (crawl_item E u d s)) = depth_limit (self s)"
  using settings_crawl_item[of E u d s] by (simp add: settings_def)

lemma depth_inv_crawl_step:
  assumes "depth_inv s" and "frontier s \<noteq> []"
  shows "depth_inv (crawl_step E s)"
proof -
  obtain u d rest where fr: "frontier s = (u, d) # rest"
    using assms(2) by (cases "frontier s") auto
  let ?s = "s\<lparr>frontier := rest\<rparr>"
  let ?t = "crawl_item E u d ?s"
  from assms(1) obtain pre where pre: "puts (trace s) = pre @ (u, d) # rest"
    and old: "\<forall>(v, e) \<in> set (fetches (trace s)). e \<le> depth_limit (self s) \<and> (v, e) \<in> set (puts (trace s))"
    by (auto simp: depth_inv_def fr)
  obtain new where new: "frontier ?t = rest @ new" "puts (trace ?t) = puts (trace s) @ new"
    using crawl_item_puts[of E u d ?s] by auto
  have suffix: "puts (trace ?t) = (pre @ [(u, d)]) @ frontier ?t"
    by (simp add: new pre)
  have dl: "depth_limit (self ?t) = depth_limit (self s)" by simp
  have fet: "\<forall>(v, e) \<in> set (fetches (trace ?t)). e \<le> depth_limit (self s) \<and> (v, e) \<in> set (puts (trace ?t))"
  proof (cases "follows E u d ?s")
    case False
    then have "?t = ?s" by (rule crawl_item_not_follows)
    with old show ?thesis by simp
  next
    case True
    then have d: "d \<le> depth_limit (self s)" by (simp add: follows_def)
    have f: "fetches (trace ?t) = fetches (trace s) @ [(u, d)]"
      using crawl_item_follows_visited(3)[OF True] by simp
    have "(u, d) \<in> set (puts (trace ?t))" by (simp add: new pre)
    with old d show ?thesis by (auto simp: f new)
  qed
  have "depth_inv ?t"
    unfolding depth_inv_def
  proof (intro conjI)
    show "\<forall>(v, e) \<in> set (fetches (trace ?t)).
            e \<le> depth_limit (self ?t) \<and> (v, e) \<in> set (puts (trace ?t))"
      using fet by (simp only: dl)
    show "\<exists>pre. puts (trace ?t) = pre @ frontier ?t" using suffix by blast
  qed
  then show ?thesis by (simp add: crawl_step_Cons[OF fr])
qed

lemma depth_inv_crawl_run: "depth_inv (crawl_run E c)"
  unfolding crawl_run_def
proof (rule crawl_loop_invariant)
  show "depth_inv \<lparr>self = c, frontier = [(root c, 0)], trace = [Put (root c) 0]\<rparr>"
    by (simp add: depth_inv_def)
next
  fix t :: run
  assume "depth_inv t" "frontier t \<noteq> []"
  then show "depth_inv (crawl_step E t)" by (rule depth_inv_crawl_step)
qed

lemma depth_limit_crawl_run [simp]: "depth_limit (self (crawl_run E c)) = depth_limit c"
  using settings_crawl_loop[of E "\<lparr>self = c, frontier = [(root c, 0)], trace = [Put (root c) 0]\<rparr>"]
  by (simp add: settings_def crawl_run_def)

text \<open>
  C3: an item whose depth exceeds \<open>depth_limit\<close> is taken off the queue and nothing
  else changes: the crawler object (sets and counters), the rest of the queue and the
  trace (no fetch) are as before.  Consequently every visited link was put on the queue
  and fetched as an item of depth at most \<open>depth_limit\<close>.
\<close>

theorem deep_items_discarded:
  assumes "Crawler chk rt dl confine exclude lk fs = Inr c"
  shows "(\<forall>s u d rest. frontier s = (u, d) # rest \<longrightarrow> depth_limit (self s) < d
            \<longrightarrow> crawl_step E s = s\<lparr>frontier := rest\<rparr>)
       \<and> (\<forall>u \<in> visited_links (crawl E c).
            \<exists>d. d \<le> dl \<and> (u, d) \<in> set (fetches (trace (crawl_run E c)))
                 \<and> (u, d) \<in> set (puts (trace (crawl_run E c))))
       \<and> (\<forall>(u, d) \<in> set (fetches (trace (crawl_run E c))). d \<le> dl)"
proof -
  have a: "\<forall>s u d rest. frontier s = (u, d) # rest \<longrightarrow> depth_limit (self s) < d
            \<longrightarrow> crawl_step E s = s\<lparr>frontier := rest\<rparr>"
    by (simp add: crawl_step_Cons crawl_item_too_deep)
  have dl: "depth_limit (self (crawl_run E c)) = dl"
    using Crawler_Inr(2)[OF assms] by simp
  have inv: "\<forall>(u, d) \<in> set (fetches (trace (crawl_run E c))).
      d \<le> dl \<and> (u, d) \<in> set (puts (trace (crawl_run E c)))"
    using depth_inv_crawl_run[of E c] dl by (simp add: depth_inv_def)
  have vis: "set (map fst (fetches (trace (crawl_run E c)))) = visited_links (crawl E c)"
    using visited_inv_crawl_run[OF assms, of E] by (simp add: visited_inv_def crawl_def)
  have b: "\<forall>u \<in> visited_links (crawl E c).
            \<exists>d. d \<le> dl \<and> (u, d) \<in> set (fetches (trace (crawl_run E c)))
                 \<and> (u, d) \<in> set (puts (trace (crawl_run E c)))"
  proof
    fix u assume "u \<in> visited_links (crawl E c)"
    with vis obtain d where "(u, d) \<in> set (fetches (trace (crawl_run E c)))" by force
    with inv show "\<exists>d. d \<le> dl \<and> (u, d) \<in> set (fetches (trace (crawl_run E c)))
                 \<and> (u, d) \<in> set (puts (trace (crawl_run E c)))" by blast
  qed
  from inv have c: "\<forall>(u, d) \<in> set (fetches (trace (crawl_run E c))). d \<le> dl" by blast
  from a b c show ?thesis by blast
qed

lemma site_visits_a: "''http://h/a'' \<in> visited_links (crawl site site_crawler)"
  unfolding site_def site_crawler_def by code_simp

theorem deep_items_discarded_witness:
  "Crawler (\<lambda>h. True) ''http://h/'' 1 None [] True True = Inr site_crawler
   \<and> crawl_step site \<lparr>self = site_crawler, frontier = [(''http://h/b'', 2)], trace = []\<rparr>
       = \<lparr>self = site_crawler, frontier = [], trace = []\<rparr>
   \<and> ''http://h/a'' \<in> visited_links (crawl site site_crawler)
   \<and> (\<exists>d. d \<le> 1 \<and> (''http://h/a'', d) \<in> set (fetches (trace (crawl_run site site_crawler)))
            \<and> (''http://h/a'', d) \<in> set (puts (trace (crawl_run site site_crawler))))"
proof -
  note t = deep_items_discarded[OF site_crawler_init, of site]
  have dl: "depth_limit site_crawler = 1" by (simp add: site_crawler_def)
  from t have "\<forall>s u d rest. frontier s = (u, d) # rest \<longrightarrow> depth_limit (self s) < d
            \<longrightarrow> crawl_step site s = s\<lparr>frontier := rest\<rparr>" by blast
  then have a: "crawl_step site \<lparr>self = site_crawler, frontier = [(''http://h/b'', 2)], trace = []\<rparr>
       = \<lparr>self = site_crawler, frontier = [], trace = []\<rparr>"
    by (simp add: dl)
  from t site_visits_a have b: "\<exists>d. d \<le> 1
      \<and> (''http://h/a'', d) \<in> set (fetches (trace (crawl_run site site_crawler)))
      \<and> (''http://h/a'', d) \<in> set (puts (trace (crawl_run site site_crawler)))" by blast
  from site_crawler_init a site_visits_a b show ?thesis by blast
qed

subsection \<open>Pages that are not HTML\<close>

lemma fetch_non_html:
  "web E u = Page mime tags \<Longrightarrow> mime \<noteq> ''text/html'' \<Longrightarrow> fetch E u = Inl NameError"
  by (simp add: fetch_def)

lemma crawl_item_fetch_raises:
  "follows E u d s \<Longrightarrow> fetch E u = Inl e \<Longrightarrow> crawl_item E u d s = mark_visited u d s"
  by (auto simp: crawl_item_def follows_def Let_def)

text \<open>
  C7: a followed item whose response has a content type other than \<open>text/html\<close>: the
  fetch raises, the crawler catches it, and the step only marks the URL visited and counts
  it in \<open>num_followed\<close>; nothing is put on the queue, \<open>urls_seen\<close>, \<open>num_links\<close>,
  \<open>urls_remembered\<close> and \<open>links_remembered\<close> stay as they are, and the loop goes on with the
  rest of the queue.
\<close>

theorem non_html_page_contributes_nothing:
  assumes "frontier s = (u, d) # rest" and "follows E u d s"
    and "web E u = Page mime tags" and "mime \<noteq> ''text/html''"
  shows "fetch E u = Inl NameError
       \<and> crawl_step E s =
           s\<lparr>self := (self s)\<lparr>visited_links := insert u (visited_links (self s)),
                               num_followed := num_followed (self s) + 1\<rparr>,
             frontier := rest, trace := trace s @ [Fetch u d]\<rparr>
       \<and> crawl_loop E s = crawl_loop E (crawl_step E s)"
proof -
  have f: "fetch E u = Inl NameError" by (rule fetch_non_html[OF assms(3,4)])
  have fo: "follows E u d (s\<lparr>frontier := rest\<rparr>)" using assms(2) by (simp add: follows_def)
  have "crawl_step E s = mark_visited u d (s\<lparr>frontier := rest\<rparr>)"
    by (simp add: crawl_step_Cons[OF assms(1)] crawl_item_fetch_raises[OF fo f])
  then have st: "crawl_step E s =
           s\<lparr>self := (self s)\<lparr>visited_links := insert u (visited_links (self s)),
                               num_followed := num_followed (self s) + 1\<rparr>,
             frontier := rest, trace := trace s @ [Fetch u d]\<rparr>"
    by (simp add: mark_visited_def)
  have "crawl_loop E s = crawl_loop E (crawl_step E s)"
    using assms(1) by (simp add: crawl_loop.simps[of E s])
  with f st show ?thesis by blast
qed

lemma pdf_site_follows:
  "follows pdf_site ''http://h/'' 0
     \<lparr>self = site_crawler, frontier = [(''http://h/'', 0)], trace = [Put ''http://h/'' 0]\<rparr>"
  unfolding pdf_site_def site_crawler_def follows_def by code_simp

lemma pdf_site_run:
  "num_followed (crawl pdf_site site_crawler) = 1 \<and> num_links (crawl pdf_site site_crawler) = 0
   \<and> links_remembered (crawl pdf_site site_crawler) = {}
   \<and> urls_seen (crawl pdf_site site_crawler) = {}"
  unfolding pdf_site_def site_crawler_def by code_simp

theorem non_html_page_contributes_nothing_witness:
  "fetch pdf_site ''http://h/'' = Inl NameError
   \<and> crawl_step pdf_site
        \<lparr>self = site_crawler, frontier = [(''http://h/'', 0)], trace = [Put ''http://h/'' 0]\<rparr>
      = \<lparr>self = site_crawler\<lparr>visited_links := {''http://h/''}, num_followed := 1\<rparr>,
         frontier = [], trace = [Put ''http://h/'' 0, Fetch ''http://h/'' 0]\<rparr>
   \<and> num_followed (crawl pdf_site site_crawler) = 1
   \<and> num_links (crawl pdf_site site_crawler) = 0
   \<and> links_remembered (crawl pdf_site site_crawler) = {}"
proof -
  let ?s = "\<lparr>self = site_crawler, frontier = [(''http://h/'', 0)], trace = [Put ''http://h/'' 0]\<rparr>"
  have w: "web pdf_site ''http://h/'' = Page ''application/pdf'' [Some ''/a'']"
    by (simp add: pdf_site_def)
  have m: "''application/pdf'' \<noteq> ''text/html''" by simp
  have fr: "frontier ?s = (''http://h/'', 0) # []" by simp
  note t = non_html_page_contributes_nothing[OF fr pdf_site_follows w m]
  have v: "visited_links site_crawler = {}" "num_followed site_crawler = 0"
    by (simp_all add: site_crawler_def)
  from t have "crawl_step pdf_site ?s
      = \<lparr>self = site_crawler\<lparr>visited_links := {''http://h/''}, num_followed := 1\<rparr>,
         frontier = [], trace = [Put ''http://h/'' 0, Fetch ''http://h/'' 0]\<rparr>"
    by (simp add: v)
  with t pdf_site_run show ?thesis by blast
qed

end
